theory Spec2Isabelle
  imports Complex_Main "HOL-Library.Multiset"
begin

section \<open>Data model (src/types/index.ts, the state of usePlayerStore.ts and AudioEngine)\<close>

text \<open>
  The player has two pieces of state: the store (\<open>PlayerState\<close> of
  \<^verbatim>\<open>stores/usePlayerStore.ts\<close>) and the singleton \<open>AudioEngine\<close>
  the store drives. Each action of the source is a function from the pair of both
  to the pair after the call.

  Numbers of the source are JavaScript numbers. Array indices are modelled as
  \<open>int\<close> (the store is called with integral indices; a negative one is allowed and
  modelled), gains, volumes and times as \<open>real\<close>: the source only compares them
  and takes \<open>Math.min\<close>/\<open>Math.max\<close>, which are exact on finite numbers.
  Where an array of numbers can come to hold \<open>undefined\<close> or a hole, and a filter
  gain \<open>NaN\<close>, the types \<open>jsval\<close> and \<open>gain_value\<close> below say so.
\<close>

datatype track_source = SrcLocal | SrcSpotify | SrcStream

datatype RepeatMode = RepeatOff | RepeatOne | RepeatAll

datatype ViewType = ViewHome | ViewLibrary | ViewSearch | ViewNowPlaying | ViewSettings

datatype LibraryTab = TabLocal | TabSpotify | TabPlaylists

text \<open>
  \<open>Track\<close>: the identity and the fields the store and the engine branch on. A
  file handle and the \<open>File\<close> it opens are named by strings.
\<close>

record Track =
  track_id :: string
  title :: string
  source :: track_source
  fileHandle :: "string option"
  streamUrl :: "string option"

record EQPreset =
  preset_name :: string
  bands :: "real list"

text \<open>
  What a position of a JavaScript array of numbers holds, or what is passed where a
  number is expected: a number or \<open>undefined\<close>. A position that is a hole (left
  by an assignment beyond the end of the array) is \<open>None\<close> in the list that models
  the array.
\<close>

datatype jsval = Undefined | Num real

abbreviation numbers :: "real list \<Rightarrow> jsval option list" where
  "numbers gs \<equiv> map (\<lambda>g. Some (Num g)) gs"

text \<open>
  The \<open>gain.value\<close> of a filter: a number, or \<open>NaN\<close> once
  \<open>Math.max(-12, Math.min(12, undefined))\<close> has been assigned to it.
\<close>

datatype gain_value = NaN | Gain real

text \<open>
  The store. \<open>queue\<close> is a JavaScript array of tracks: an entry is \<open>None\<close>
  where the array holds \<open>undefined\<close> (the type says \<open>Track[]\<close>, but
  \<open>reorderQueue\<close> can put \<open>undefined\<close> there; no action leaves a hole in
  it). \<open>eqBands\<close> is a JavaScript array of numbers: a position is \<open>None\<close>
  where the array has a hole, \<open>Some Undefined\<close> where it holds
  \<open>undefined\<close>, \<open>Some (Num g)\<close> where it holds the number \<open>g\<close>.
\<close>

record PlayerState =
  currentTrack :: "Track option"
  isPlaying :: bool
  progress :: real
  duration :: real
  volume :: real
  muted :: bool
  queue :: "Track option list"
  queueIndex :: int
  shuffle :: bool
  repeat :: RepeatMode
  eqEnabled :: bool
  eqBands :: "jsval option list"
  eqPresetName :: string
  currentView :: ViewType
  libraryTab :: LibraryTab
  showNowPlaying :: bool
  showLyrics :: bool

text \<open>
  The \<open>HTMLAudioElement\<close> of the engine. Its \<open>duration\<close> is \<open>NaN\<close> until the
  media reports one; every read in the source is \<open>duration || 0\<close> or a truth test,
  so an unknown duration is the value 0 here.
\<close>

record AudioElement =
  src :: string
  currentTime :: real
  el_duration :: real
  paused :: bool

text \<open>
  The engine: \<open>eqNodes\<close> holds the \<open>gain.value\<close> of each filter of the chain
  (empty until \<open>initialize\<close>), \<open>gainNode\<close> the \<open>gain.value\<close> of the volume
  stage (\<open>None\<close> for \<open>null\<close>). The audio context, the source node and the analyser
  carry no state the store's actions read and are left out.
\<close>

record AudioEngine =
  audioElement :: "AudioElement option"
  eqNodes :: "gain_value list"
  gainNode :: "real option"
  engine_currentTrack :: "Track option"
  isInitialized :: bool

type_synonym world = "PlayerState \<times> AudioEngine"

text \<open>
  What the browser decides: whether the audio graph can be built, what a file handle
  yields, the object URL of a file, whether \<open>play()\<close> of the element resolves for a
  source, and the value of \<open>Math.random()\<close>.
\<close>

record platform =
  context_ok :: bool
  getFile :: "string \<Rightarrow> string option"
  createObjectURL :: "string \<Rightarrow> string"
  play_ok :: "string \<Rightarrow> bool"
  random :: real

datatype error = InitFailed | NotInitialized | FileUnavailable | PlayRejected

text \<open>
  An \<open>async\<close> action settles as resolved or rejected; in both cases the state it
  has written by then stays written.
\<close>

datatype 'a promise = Resolved 'a | Rejected error 'a

fun settled :: "'a promise \<Rightarrow> 'a" where
  "settled (Resolved w) = w"
| "settled (Rejected err w) = w"

fun is_resolved :: "'a promise \<Rightarrow> bool" where
  "is_resolved (Resolved w) = True"
| "is_resolved (Rejected err w) = False"

section \<open>JavaScript arrays\<close>

text \<open>\<open>xs[i]\<close>: \<open>undefined\<close> outside the array, and where the entry is \<open>undefined\<close>.\<close>

definition js_at :: "'a option list \<Rightarrow> int \<Rightarrow> 'a option" where
  "js_at xs i = (if 0 \<le> i \<and> i < int (length xs) then xs ! nat i else None)"

text \<open>\<open>xs.filter((_, i) => i !== index)\<close>\<close>

definition filter_index :: "int \<Rightarrow> 'a list \<Rightarrow> 'a list" where
  "filter_index index xs = map snd (filter (\<lambda>(i, x). int i \<noteq> index) (enumerate 0 xs))"

text \<open>
  The start position \<open>Array.prototype.splice\<close> computes from its first argument: a
  negative one counts from the end, and the result is clamped into \<open>[0, length]\<close>.
\<close>

definition splice_start :: "int \<Rightarrow> 'a list \<Rightarrow> nat" where
  "splice_start start xs =
     (if start < 0 then nat (max (int (length xs) + start) 0)
      else nat (min start (int (length xs))))"

text \<open>
  \<open>const [removed] = xs.splice(start, 1)\<close>: the array after the call and the removed
  entry, \<open>undefined\<close> when the start position is the end of the array.
\<close>

definition splice_remove :: "int \<Rightarrow> 'a option list \<Rightarrow> 'a option list \<times> 'a option" where
  "splice_remove start xs =
     (let k = splice_start start xs in
      if k < length xs then (take k xs @ drop (Suc k) xs, xs ! k) else (xs, None))"

text \<open>\<open>xs.splice(start, 0, item)\<close>\<close>

definition splice_insert :: "int \<Rightarrow> 'a \<Rightarrow> 'a list \<Rightarrow> 'a list" where
  "splice_insert start item xs =
     (let k = splice_start start xs in take k xs @ [item] @ drop k xs)"

text \<open>
  \<open>[...xs]\<close> on an array of numbers: the copy holds \<open>undefined\<close> where
  \<open>xs\<close> has a hole.
\<close>

definition spread :: "jsval option list \<Rightarrow> jsval option list" where
  "spread xs = map (\<lambda>x. case x of None \<Rightarrow> Some Undefined | Some v \<Rightarrow> Some v) xs"

text \<open>
  \<open>xs[index] = v\<close> on an array of numbers: inside the array the entry is replaced;
  beyond the end the array grows to \<open>index + 1\<close> entries, with holes in between; a
  negative index writes a named property of the array object and leaves its entries
  and its length as they are.
\<close>

definition array_set :: "int \<Rightarrow> 'a \<Rightarrow> 'a option list \<Rightarrow> 'a option list" where
  "array_set index v xs =
     (if index < 0 then xs
      else if nat index < length xs then xs[nat index := Some v]
      else xs @ replicate (nat index - length xs) None @ [Some v])"

text \<open>\<open>xs.findIndex(P)\<close>: the first position where \<open>P\<close> holds, or -1.\<close>

fun findIndex :: "('a \<Rightarrow> bool) \<Rightarrow> 'a list \<Rightarrow> int" where
  "findIndex P [] = -1"
| "findIndex P (x # xs) =
     (if P x then 0 else (let r = findIndex P xs in if r < 0 then -1 else r + 1))"

section \<open>AudioEngine\<close>

definition EQ_FREQUENCIES :: "nat list" where
  "EQ_FREQUENCIES = [32, 64, 125, 250, 500, 1000, 2000, 4000, 8000, 16000]"

definition EQ_PRESETS :: "EQPreset list" where
  "EQ_PRESETS =
    [\<lparr>preset_name = ''Flat'', bands = [0, 0, 0, 0, 0, 0, 0, 0, 0, 0]\<rparr>,
     \<lparr>preset_name = ''Bass Boost'', bands = [6, 5, 4, 2, 0, 0, 0, 0, 0, 0]\<rparr>,
     \<lparr>preset_name = ''Treble Boost'', bands = [0, 0, 0, 0, 0, 1, 2, 4, 5, 6]\<rparr>,
     \<lparr>preset_name = ''Vocal'', bands = [-2, -1, 0, 2, 4, 4, 3, 1, 0, -1]\<rparr>,
     \<lparr>preset_name = ''Electronic'', bands = [4, 3, 0, -2, -1, 1, 0, 3, 4, 4]\<rparr>,
     \<lparr>preset_name = ''Rock'', bands = [4, 3, 1, 0, -1, 0, 1, 3, 4, 4]\<rparr>,
     \<lparr>preset_name = ''Pop'', bands = [-1, 1, 3, 4, 3, 1, 0, 1, 2, 2]\<rparr>,
     \<lparr>preset_name = ''Jazz'', bands = [2, 1, 0, 1, 2, 3, 3, 2, 2, 2]\<rparr>,
     \<lparr>preset_name = ''Classical'', bands = [3, 2, 1, 1, 0, 0, 0, 1, 2, 3]\<rparr>,
     \<lparr>preset_name = ''Hip Hop'', bands = [5, 4, 2, 1, 0, 0, 1, 0, 2, 2]\<rparr>]"

text \<open>The engine before \<open>initialize\<close>: the field initialisers of the class.\<close>

definition new_engine :: AudioEngine where
  "new_engine = \<lparr>audioElement = None, eqNodes = [], gainNode = None,
     engine_currentTrack = None, isInitialized = False\<rparr>"

text \<open>
  \<open>initialize\<close>: nothing to do when already initialised; otherwise the element, the
  gain stage (a new \<open>GainNode\<close> has gain 1) and one filter per frequency, flat. The
  construction is in a \<open>try\<close> block that rethrows; a failure is modelled at its
  first step, the construction of the audio context, which leaves the engine as it was.
\<close>

definition initialize :: "platform \<Rightarrow> AudioEngine \<Rightarrow> AudioEngine promise" where
  "initialize p e =
     (if isInitialized e then Resolved e
      else if context_ok p then
        Resolved (e\<lparr>audioElement := Some \<lparr>src = [], currentTime = 0, el_duration = 0, paused = True\<rparr>,
                    eqNodes := map (\<lambda>freq. Gain 0) EQ_FREQUENCIES,
                    gainNode := Some 1,
                    isInitialized := True\<rparr>)
      else Rejected InitFailed e)"

definition ensureInitialized :: "platform \<Rightarrow> AudioEngine \<Rightarrow> AudioEngine promise" where
  "ensureInitialized p e = (if \<not> isInitialized e then initialize p e else Resolved e)"

text \<open>
  \<open>loadSource\<close>: throws without an element; otherwise assigns the source and calls
  \<open>load()\<close>, which resets the element (paused, at time 0, duration unknown).
\<close>

definition loadSource :: "string \<Rightarrow> AudioEngine \<Rightarrow> AudioEngine promise" where
  "loadSource url e =
     (case audioElement e of
        None \<Rightarrow> Rejected NotInitialized e
      | Some a \<Rightarrow> Resolved (e\<lparr>audioElement :=
          Some (a\<lparr>src := url, currentTime := 0, el_duration := 0, paused := True\<rparr>)\<rparr>))"

definition loadFile :: "platform \<Rightarrow> string \<Rightarrow> AudioEngine \<Rightarrow> AudioEngine promise" where
  "loadFile p file e =
     (case ensureInitialized p e of
        Rejected err e' \<Rightarrow> Rejected err e'
      | Resolved e' \<Rightarrow> loadSource (createObjectURL p file) e')"

definition loadStream :: "platform \<Rightarrow> string \<Rightarrow> AudioEngine \<Rightarrow> AudioEngine promise" where
  "loadStream p url e =
     (case ensureInitialized p e of
        Rejected err e' \<Rightarrow> Rejected err e'
      | Resolved e' \<Rightarrow> loadSource url e')"

definition engine_play :: "platform \<Rightarrow> AudioEngine \<Rightarrow> AudioEngine promise" where
  "engine_play p e =
     (case ensureInitialized p e of
        Rejected err e' \<Rightarrow> Rejected err e'
      | Resolved e' \<Rightarrow>
          (case audioElement e' of
             None \<Rightarrow> Resolved e'
           | Some a \<Rightarrow>
               if play_ok p (src a)
               then Resolved (e'\<lparr>audioElement := Some (a\<lparr>paused := False\<rparr>)\<rparr>)
               else Rejected PlayRejected e'))"

text \<open>\<open>seekTo(time)\<close>: \<open>Math.max(0, Math.min(time, duration || 0))\<close>\<close>

definition seekTo :: "real \<Rightarrow> AudioEngine \<Rightarrow> AudioEngine" where
  "seekTo time e =
     (case audioElement e of
        None \<Rightarrow> e
      | Some a \<Rightarrow> e\<lparr>audioElement := Some (a\<lparr>currentTime := max 0 (min time (el_duration a))\<rparr>)\<rparr>)"

text \<open>\<open>AudioEngine.setVolume\<close>: \<open>Math.max(0, Math.min(1, volume))\<close> on the gain stage.\<close>

definition engine_setVolume :: "real \<Rightarrow> AudioEngine \<Rightarrow> AudioEngine" where
  "engine_setVolume v e =
     (case gainNode e of
        None \<Rightarrow> e
      | Some g \<Rightarrow> e\<lparr>gainNode := Some (max 0 (min 1 v))\<rparr>)"

text \<open>
  \<open>Math.max(-12, Math.min(12, gain))\<close>: the number clamped; \<open>NaN\<close> for
  \<open>undefined\<close>.
\<close>

fun clampedGain :: "jsval \<Rightarrow> gain_value" where
  "clampedGain (Num gain) = Gain (max (- 12) (min 12 gain))"
| "clampedGain Undefined = NaN"

text \<open>\<open>AudioEngine.setEQBand\<close>: guarded by the index, the gain clamped to -12..12.\<close>

definition engine_setEQBand :: "int \<Rightarrow> jsval \<Rightarrow> AudioEngine \<Rightarrow> AudioEngine" where
  "engine_setEQBand index gain e =
     (if index \<ge> 0 \<and> index < int (length (eqNodes e))
      then e\<lparr>eqNodes := (eqNodes e)[nat index := clampedGain gain]\<rparr>
      else e)"

text \<open>
  \<open>AudioEngine.setEQBands\<close>: \<open>gains.forEach((gain, index) => this.setEQBand(index, gain))\<close>;
  \<open>forEach\<close> skips the holes of the array and visits every other position, also
  one that holds \<open>undefined\<close>.
\<close>

definition engine_setEQBands :: "jsval option list \<Rightarrow> AudioEngine \<Rightarrow> AudioEngine" where
  "engine_setEQBands gains e =
     fold (\<lambda>(index, g) e'. case g of None \<Rightarrow> e' | Some gain \<Rightarrow> engine_setEQBand (int index) gain e')
          (enumerate 0 gains) e"

definition applyPreset :: "EQPreset \<Rightarrow> AudioEngine \<Rightarrow> AudioEngine" where
  "applyPreset preset e = engine_setEQBands (numbers (bands preset)) e"

text \<open>\<open>AudioEngine.setEQEnabled\<close>: when disabled every filter's gain becomes 0.\<close>

definition setEQEnabled :: "bool \<Rightarrow> AudioEngine \<Rightarrow> AudioEngine" where
  "setEQEnabled enabled e =
     e\<lparr>eqNodes := map (\<lambda>g. if \<not> enabled then Gain 0 else g) (eqNodes e)\<rparr>"

definition setCurrentTrack :: "Track \<Rightarrow> AudioEngine \<Rightarrow> AudioEngine" where
  "setCurrentTrack track e = e\<lparr>engine_currentTrack := Some track\<rparr>"

section \<open>The store's actions (stores/usePlayerStore.ts)\<close>

definition initial_state :: PlayerState where
  "initial_state = \<lparr>currentTrack = None, isPlaying = False, progress = 0, duration = 0,
     volume = 0.8, muted = False, queue = [], queueIndex = -1, shuffle = False,
     repeat = RepeatOff, eqEnabled = True,
     eqBands = numbers [0, 0, 0, 0, 0, 0, 0, 0, 0, 0], eqPresetName = ''Flat'',
     currentView = ViewHome, libraryTab = TabLocal, showNowPlaying = False,
     showLyrics = False\<rparr>"

subsection \<open>Queue actions\<close>

definition addToQueue :: "Track \<Rightarrow> PlayerState \<Rightarrow> PlayerState" where
  "addToQueue track s = s\<lparr>queue := queue s @ [Some track]\<rparr>"

definition removeFromQueue :: "int \<Rightarrow> PlayerState \<Rightarrow> PlayerState" where
  "removeFromQueue index s =
     (let newQueue = filter_index index (queue s);
          newIndex = queueIndex s;
          newIndex =
            (if index < queueIndex s then newIndex - 1
             else if index = queueIndex s \<and> newIndex \<ge> int (length newQueue)
               then int (length newQueue) - 1
             else newIndex)
      in s\<lparr>queue := newQueue, queueIndex := newIndex\<rparr>)"

definition clearQueue :: "PlayerState \<Rightarrow> PlayerState" where
  "clearQueue s = s\<lparr>queue := [], queueIndex := -1\<rparr>"

definition reorderQueue :: "int \<Rightarrow> int \<Rightarrow> PlayerState \<Rightarrow> PlayerState" where
  "reorderQueue fromIndex toIndex s =
     (let (newQueue, removed) = splice_remove fromIndex (queue s);
          newQueue = splice_insert toIndex removed newQueue;
          newIndex = queueIndex s;
          newIndex =
            (if queueIndex s = fromIndex then toIndex
             else if fromIndex < queueIndex s \<and> toIndex \<ge> queueIndex s then newIndex - 1
             else if fromIndex > queueIndex s \<and> toIndex \<le> queueIndex s then newIndex + 1
             else newIndex)
      in s\<lparr>queue := newQueue, queueIndex := newIndex\<rparr>)"

subsection \<open>Playback actions\<close>

text \<open>
  \<open>setTrack\<close>: the store and the engine learn the track first; then a local track
  with a file handle is read and loaded, any other track with a non-empty stream URL
  is loaded from it, and a track with neither loads nothing.
\<close>

definition setTrack :: "platform \<Rightarrow> Track \<Rightarrow> world \<Rightarrow> world promise" where
  "setTrack p track w =
     (let s = (fst w)\<lparr>currentTrack := Some track\<rparr>;
          e = setCurrentTrack track (snd w)
      in if source track = SrcLocal \<and> fileHandle track \<noteq> None then
           (case getFile p (the (fileHandle track)) of
              None \<Rightarrow> Rejected FileUnavailable (s, e)
            | Some file \<Rightarrow>
                (case loadFile p file e of
                   Rejected err e' \<Rightarrow> Rejected err (s, e')
                 | Resolved e' \<Rightarrow> Resolved (s, e')))
         else if streamUrl track \<noteq> None \<and> streamUrl track \<noteq> Some [] then
           (case loadStream p (the (streamUrl track)) e of
              Rejected err e' \<Rightarrow> Rejected err (s, e')
            | Resolved e' \<Rightarrow> Resolved (s, e'))
         else Resolved (s, e))"

text \<open>
  \<open>playTrack(track, queue?)\<close>: a supplied queue replaces the store's, with the index
  of the track in it (0 when it is not there); then the track is set, played, and
  \<open>isPlaying\<close> is raised. A rejection stops the action where it happens.
\<close>

definition playTrack :: "platform \<Rightarrow> Track \<Rightarrow> Track list option \<Rightarrow> world \<Rightarrow> world promise" where
  "playTrack p track new_queue w =
     (let s = (case new_queue of
                 None \<Rightarrow> fst w
               | Some q \<Rightarrow>
                   (let index = findIndex (\<lambda>t. track_id t = track_id track) q
                    in (fst w)\<lparr>queue := map Some q,
                                queueIndex := (if index \<ge> 0 then index else 0)\<rparr>))
      in case setTrack p track (s, snd w) of
           Rejected err w' \<Rightarrow> Rejected err w'
         | Resolved w' \<Rightarrow>
             (case engine_play p (snd w') of
                Rejected err e' \<Rightarrow> Rejected err (fst w', e')
              | Resolved e' \<Rightarrow> Resolved ((fst w')\<lparr>isPlaying := True\<rparr>, e')))"

text \<open>
  \<open>next\<close>. The local \<open>nextIndex\<close> is \<open>None\<close> on the path that returns at the end
  of the queue.
\<close>

definition "next" :: "platform \<Rightarrow> world \<Rightarrow> world promise" where
  "next p w =
     (let s = fst w in
      if length (queue s) = 0 then Resolved w
      else
        (let nextIndex =
               (if shuffle s then Some (\<lfloor>random p * real (length (queue s))\<rfloor>)
                else (let n = queueIndex s + 1 in
                      if n \<ge> int (length (queue s))
                      then (if repeat s = RepeatAll then Some 0 else None)
                      else Some n))
         in case nextIndex of
              None \<Rightarrow> Resolved w
            | Some n \<Rightarrow>
                (case js_at (queue s) n of
                   None \<Rightarrow> Resolved w
                 | Some nextTrack \<Rightarrow> playTrack p nextTrack None (s\<lparr>queueIndex := n\<rparr>, snd w))))"

definition previous :: "platform \<Rightarrow> world \<Rightarrow> world promise" where
  "previous p w =
     (let s = fst w in
      if progress s > 3 then Resolved (s, seekTo 0 (snd w))
      else if length (queue s) = 0 then Resolved w
      else
        (let prevIndex = (if queueIndex s > 0 then queueIndex s - 1
                          else int (length (queue s)) - 1)
         in case js_at (queue s) prevIndex of
              None \<Rightarrow> Resolved w
            | Some prevTrack \<Rightarrow> playTrack p prevTrack None (s\<lparr>queueIndex := prevIndex\<rparr>, snd w)))"

definition updateProgress :: "real \<Rightarrow> real \<Rightarrow> PlayerState \<Rightarrow> PlayerState" where
  "updateProgress pr d s = s\<lparr>progress := pr, duration := d\<rparr>"

subsection \<open>Volume\<close>

definition setVolume :: "real \<Rightarrow> world \<Rightarrow> world" where
  "setVolume v w = ((fst w)\<lparr>volume := v, muted := False\<rparr>, engine_setVolume v (snd w))"

definition toggleMute :: "world \<Rightarrow> world" where
  "toggleMute w =
     (let state = fst w in
      if muted state then (state\<lparr>muted := False\<rparr>, engine_setVolume (volume state) (snd w))
      else (state\<lparr>muted := True\<rparr>, engine_setVolume 0 (snd w)))"

subsection \<open>Equalizer\<close>

text \<open>
  \<open>setEQBand\<close>: the engine first; then \<open>newBands = [...state.eqBands]\<close>,
  \<open>newBands[index] = gain\<close>, and the preset name becomes "Custom".
\<close>

definition setEQBand :: "int \<Rightarrow> real \<Rightarrow> world \<Rightarrow> world" where
  "setEQBand index gain w =
     ((fst w)\<lparr>eqBands := array_set index (Num gain) (spread (eqBands (fst w))),
               eqPresetName := ''Custom''\<rparr>,
      engine_setEQBand index (Num gain) (snd w))"

definition setEQBands :: "real list \<Rightarrow> world \<Rightarrow> world" where
  "setEQBands gains w =
     ((fst w)\<lparr>eqBands := numbers gains\<rparr>, engine_setEQBands (numbers gains) (snd w))"

definition applyEQPreset :: "string \<Rightarrow> world \<Rightarrow> world" where
  "applyEQPreset presetName w =
     (case find (\<lambda>p. preset_name p = presetName) EQ_PRESETS of
        None \<Rightarrow> w
      | Some preset \<Rightarrow>
          ((fst w)\<lparr>eqBands := numbers (bands preset), eqPresetName := presetName\<rparr>,
           applyPreset preset (snd w)))"

definition toggleEQ :: "world \<Rightarrow> world" where
  "toggleEQ w =
     (let newEnabled = \<not> eqEnabled (fst w);
          e = setEQEnabled newEnabled (snd w);
          s = (fst w)\<lparr>eqEnabled := newEnabled\<rparr>
      in if newEnabled then (s, engine_setEQBands (eqBands s) e) else (s, e))"

section \<open>Properties stated about the state\<close>

text \<open>
  The index invariant of the queue: the index is -1 or a position of the queue.
\<close>

definition queue_inv :: "PlayerState \<Rightarrow> bool" where
  "queue_inv s \<longleftrightarrow>
     queueIndex s = -1 \<or> (0 \<le> queueIndex s \<and> queueIndex s < int (length (queue s)))"

text \<open>
  \<open>same_current s s'\<close>: when the index of \<open>s'\<close> is not -1, the index of \<open>s\<close> was
  not -1 either and both denote the same entry.
\<close>

definition same_current :: "PlayerState \<Rightarrow> PlayerState \<Rightarrow> bool" where
  "same_current s s' \<longleftrightarrow>
     (queueIndex s' \<noteq> -1 \<longrightarrow>
        queueIndex s \<noteq> -1 \<and>
        queue s' ! nat (queueIndex s') = queue s ! nat (queueIndex s))"

subsection \<open>Fixtures: a queue of three streamed tracks\<close>

definition track_a :: Track where
  "track_a = \<lparr>track_id = ''a'', title = ''A'', source = SrcStream, fileHandle = None,
     streamUrl = Some ''https://cdn.example/a''\<rparr>"

definition track_b :: Track where
  "track_b = \<lparr>track_id = ''b'', title = ''B'', source = SrcStream, fileHandle = None,
     streamUrl = Some ''https://cdn.example/b''\<rparr>"

definition track_c :: Track where
  "track_c = \<lparr>track_id = ''c'', title = ''C'', source = SrcStream, fileHandle = None,
     streamUrl = Some ''https://cdn.example/c''\<rparr>"

definition queue3 :: "Track option list" where
  "queue3 = [Some track_a, Some track_b, Some track_c]"

definition player_at :: "int \<Rightarrow> PlayerState" where
  "player_at i = initial_state\<lparr>queue := queue3, queueIndex := i\<rparr>"

subsection \<open>Fixtures: a browser that grants everything, an initialised engine\<close>

definition browser_ok :: platform where
  "browser_ok = \<lparr>context_ok = True, getFile = (\<lambda>h. Some h),
     createObjectURL = (\<lambda>f. ''blob:'' @ f), play_ok = (\<lambda>u. True), random = 0\<rparr>"

text \<open>The engine as \<open>initialize\<close> leaves it.\<close>

definition ready_engine :: AudioEngine where
  "ready_engine = \<lparr>audioElement = Some \<lparr>src = [], currentTime = 0, el_duration = 0, paused = True\<rparr>,
     eqNodes = map Gain [0, 0, 0, 0, 0, 0, 0, 0, 0, 0], gainNode = Some 1,
     engine_currentTrack = None, isInitialized = True\<rparr>"

subsection \<open>Playback\<close>

text \<open>
  \<open>can_initialize p e\<close>: \<open>ensureInitialized\<close> will succeed: an initialised
  engine has its element, an uninitialised one can build its graph.
\<close>

definition can_initialize :: "platform \<Rightarrow> AudioEngine \<Rightarrow> bool" where
  "can_initialize p e \<longleftrightarrow>
     (if isInitialized e then audioElement e \<noteq> None else context_ok p)"

text \<open>
  \<open>loads_stream t u\<close>: \<open>setTrack\<close> loads \<open>t\<close> from its stream URL \<open>u\<close>.
\<close>

definition loads_stream :: "Track \<Rightarrow> string \<Rightarrow> bool" where
  "loads_stream t u \<longleftrightarrow>
     (source t \<noteq> SrcLocal \<or> fileHandle t = None) \<and> streamUrl t = Some u \<and> u \<noteq> []"

text \<open>
  \<open>starts_playing t r\<close>: the action resolved; the store and the engine have \<open>t\<close>
  as their current track, the store says it is playing, the element is not paused,
  and for a track loaded from its stream URL the element's source is that URL.
\<close>

definition starts_playing :: "Track \<Rightarrow> world promise \<Rightarrow> bool" where
  "starts_playing t r \<longleftrightarrow>
     is_resolved r \<and> currentTrack (fst (settled r)) = Some t \<and> isPlaying (fst (settled r))
     \<and> engine_currentTrack (snd (settled r)) = Some t
     \<and> map_option paused (audioElement (snd (settled r))) = Some False
     \<and> (case streamUrl t of
          None \<Rightarrow> True
        | Some u \<Rightarrow> loads_stream t u \<longrightarrow>
            map_option src (audioElement (snd (settled r))) = Some u)"



subsection \<open>Fixtures: a track without a source, a local track, an engine playing track c\<close>





subsection \<open>Fixtures: the store and the engine after the preset "Rock"\<close>

definition rock_state :: PlayerState where
  "rock_state = initial_state\<lparr>eqBands := numbers [4, 3, 1, 0, -1, 0, 1, 3, 4, 4],
     eqPresetName := ''Rock''\<rparr>"

definition rock_engine :: AudioEngine where
  "rock_engine = ready_engine\<lparr>eqNodes := map Gain [4, 3, 1, 0, -1, 0, 1, 3, 4, 4]\<rparr>"

section \<open>Array lemmas\<close>

lemma filter_enumerate_index:
  "map snd (filter (\<lambda>(j, x). int j \<noteq> i) (enumerate n xs)) =
     (if int n \<le> i \<and> i < int n + int (length xs)
      then take (nat i - n) xs @ drop (Suc (nat i - n)) xs else xs)"
proof (induction xs arbitrary: n)
  case Nil
  then show ?case by simp
next
  case (Cons x xs)
  show ?case
  proof (cases "int n = i")
    case True
    then have "map snd (filter (\<lambda>(j, x). int j \<noteq> i) (enumerate (Suc n) xs)) = xs"
      using Cons.IH [of "Suc n"] by simp
    with True show ?thesis by auto
  next
    case False
    show ?thesis
    proof (cases "int n < i \<and> i < int n + int (length (x # xs))")
      case True
      then have "nat i - n = Suc (nat i - Suc n)" by linarith
      with True False show ?thesis
        using Cons.IH [of "Suc n"] by simp
    next
      case F: False
      with False show ?thesis
        using Cons.IH [of "Suc n"] by auto
    qed
  qed
qed

lemma filter_index_eq:
  "filter_index i xs =
     (if 0 \<le> i \<and> i < int (length xs) then take (nat i) xs @ drop (Suc (nat i)) xs else xs)"
  unfolding filter_index_def using filter_enumerate_index [of i 0 xs] by simp

lemma nth_delete:
  "j < length xs - 1 \<Longrightarrow> k < length xs \<Longrightarrow>
   (take k xs @ drop (Suc k) xs) ! j = (if j < k then xs ! j else xs ! Suc j)"
  by (auto simp: nth_append min_def)

lemma nth_insert_at:
  "k \<le> length ys \<Longrightarrow> j \<le> length ys \<Longrightarrow>
   (take k ys @ [x] @ drop k ys) ! j =
     (if j < k then ys ! j else if j = k then x else ys ! (j - 1))"
  by (auto simp: nth_append min_def)

lemma splice_remove_in_range:
  "0 \<le> f \<Longrightarrow> f < int (length xs) \<Longrightarrow>
   splice_remove f xs = (take (nat f) xs @ drop (Suc (nat f)) xs, xs ! nat f)"
proof -
  assume "0 \<le> f" "f < int (length xs)"
  then have "nat f < length xs" by linarith
  with \<open>0 \<le> f\<close> \<open>f < int (length xs)\<close> show ?thesis
    by (simp add: splice_remove_def splice_start_def Let_def min_def)
qed

lemma splice_insert_in_range:
  "0 \<le> t \<Longrightarrow> t \<le> int (length xs) \<Longrightarrow>
   splice_insert t x xs = take (nat t) xs @ [x] @ drop (nat t) xs"
  by (simp add: splice_insert_def splice_start_def Let_def min_def)

text \<open>
  Moving the entry at \<open>f\<close> to position \<open>t\<close>: where the entry at \<open>q\<close> ends up.
\<close>

lemma move_nth:
  fixes xs :: "'a list"
  assumes "f < length xs" "t < length xs" "q < length xs"
  defines "ys \<equiv> take f xs @ drop (Suc f) xs"
  shows "(take t ys @ [xs ! f] @ drop t ys) !
           (if q = f then t else if f < q \<and> q \<le> t then q - 1
            else if q < f \<and> t \<le> q then q + 1 else q) = xs ! q"
proof -
  have len: "length ys = length xs - 1"
    using assms(1) by (simp add: ys_def min_def)
  have del: "\<And>j. j < length xs - 1 \<Longrightarrow> ys ! j = (if j < f then xs ! j else xs ! Suc j)"
    unfolding ys_def using nth_delete [OF _ assms(1)] by blast
  have ins: "\<And>j. j \<le> length ys \<Longrightarrow>
      (take t ys @ [xs ! f] @ drop t ys) ! j =
        (if j < t then ys ! j else if j = t then xs ! f else ys ! (j - 1))"
    using nth_insert_at [of t ys] assms(2) len by simp
  consider "q = f" | "f < q" "q \<le> t" | "q < f" "t \<le> q" | "f < q" "t < q" | "q < f" "q < t"
    by linarith
  then show ?thesis
  proof cases
    case 1
    then show ?thesis using ins [of t] assms(2) len by simp
  next
    case 2
    then show ?thesis using ins [of "q - 1"] del [of "q - 1"] assms len by auto
  next
    case 3
    then show ?thesis using ins [of "q + 1"] del [of q] assms len by auto
  next
    case 4
    then show ?thesis using ins [of q] del [of "q - 1"] assms len by auto
  next
    case 5
    then show ?thesis using ins [of q] del [of q] assms len by auto
  qed
qed

section \<open>The queue index under the queue's mutations\<close>

lemma addToQueue_index:
  "queue_inv s \<Longrightarrow> queue_inv (addToQueue tr s) \<and> same_current s (addToQueue tr s)"
  by (auto simp: queue_inv_def same_current_def addToQueue_def nth_append)

lemma clearQueue_index: "queue_inv (clearQueue s) \<and> same_current s (clearQueue s)"
  by (simp add: queue_inv_def same_current_def clearQueue_def)

lemma removeFromQueue_inv:
  assumes "queue_inv s" "0 \<le> i"
  shows "queue_inv (removeFromQueue i s)"
  using assms
  by (auto simp: queue_inv_def removeFromQueue_def filter_index_eq Let_def)

lemma removeFromQueue_same:
  assumes "queue_inv s" "0 \<le> i" "i \<noteq> queueIndex s"
  shows "same_current s (removeFromQueue i s)"
  using assms
  by (auto simp: queue_inv_def same_current_def removeFromQueue_def filter_index_eq Let_def
      nth_append min_def nat_diff_distrib nat_less_iff nat_le_iff Suc_nat_eq_nat_zadd1)

lemma reorderQueue_in_range:
  assumes "0 \<le> f" "f < int (length (queue s))" "0 \<le> t" "t < int (length (queue s))"
  shows "queue (reorderQueue f t s) =
           take (nat t) (take (nat f) (queue s) @ drop (Suc (nat f)) (queue s))
           @ [queue s ! nat f]
           @ drop (nat t) (take (nat f) (queue s) @ drop (Suc (nat f)) (queue s))"
    and "queueIndex (reorderQueue f t s) =
            (if queueIndex s = f then t
             else if f < queueIndex s \<and> t \<ge> queueIndex s then queueIndex s - 1
             else if f > queueIndex s \<and> t \<le> queueIndex s then queueIndex s + 1
             else queueIndex s)"
  using assms
  by (simp_all add: reorderQueue_def splice_remove_in_range splice_insert_in_range Let_def min_def)

lemma reorderQueue_length:
  assumes "0 \<le> f" "f < int (length (queue s))" "0 \<le> t" "t < int (length (queue s))"
  shows "length (queue (reorderQueue f t s)) = length (queue s)"
  using assms by (simp add: reorderQueue_in_range(1) min_def) linarith

lemma reorderQueue_inv:
  assumes "queue_inv s" "0 \<le> f" "f < int (length (queue s))"
    "0 \<le> t" "t < int (length (queue s))"
  shows "queue_inv (reorderQueue f t s)"
  using assms reorderQueue_length [of f s t]
  by (auto simp: queue_inv_def reorderQueue_in_range(2))

lemma reorderQueue_same:
  assumes "queue_inv s" "0 \<le> f" "f < int (length (queue s))"
    "0 \<le> t" "t < int (length (queue s))"
  shows "same_current s (reorderQueue f t s)"
proof (cases "queueIndex s = -1")
  case True
  with assms show ?thesis
    by (simp add: same_current_def reorderQueue_in_range(2))
next
  case False
  with assms(1) have q: "0 \<le> queueIndex s" "queueIndex s < int (length (queue s))"
    by (auto simp: queue_inv_def)
  define f' t' q' where "f' = nat f" and "t' = nat t" and "q' = nat (queueIndex s)"
  have n: "f' < length (queue s)" "t' < length (queue s)" "q' < length (queue s)"
    using assms q by (simp_all add: f'_def t'_def q'_def nat_less_iff)
  have idx: "nat (queueIndex (reorderQueue f t s)) =
      (if q' = f' then t' else if f' < q' \<and> q' \<le> t' then q' - 1
       else if q' < f' \<and> t' \<le> q' then q' + 1 else q')"
    using assms q unfolding reorderQueue_in_range(2) [OF assms(2-5)] f'_def t'_def q'_def
    by (auto simp: nat_diff_distrib nat_add_distrib)
  have "queue (reorderQueue f t s) ! nat (queueIndex (reorderQueue f t s)) = queue s ! q'"
    unfolding idx reorderQueue_in_range(1) [OF assms(2-5)]
    using move_nth [OF n] by (simp add: f'_def t'_def)
  with False show ?thesis
    by (simp add: same_current_def q'_def)
qed

text \<open>
  C1 (as amended). From a state whose index is -1 or a position of the queue,
  \<open>addToQueue\<close>, \<open>clearQueue\<close>, \<open>removeFromQueue(i)\<close> with \<open>i \<ge> 0\<close> and
  \<open>reorderQueue(from, to)\<close> with both positions inside the queue lead to a state
  whose index is again -1 or a position of the new queue; and when the new index is
  not -1 it denotes the entry that was current before, unless \<open>removeFromQueue\<close>
  removed just that entry.
\<close>

theorem queue_mutations_keep_index:
  assumes "queue_inv s"
  shows "(queue_inv (addToQueue tr s) \<and> same_current s (addToQueue tr s))
       \<and> (0 \<le> i \<longrightarrow>
            queue_inv (removeFromQueue i s)
            \<and> (i \<noteq> queueIndex s \<longrightarrow> same_current s (removeFromQueue i s)))
       \<and> (0 \<le> f \<and> f < int (length (queue s)) \<and> 0 \<le> t \<and> t < int (length (queue s)) \<longrightarrow>
            queue_inv (reorderQueue f t s) \<and> same_current s (reorderQueue f t s))
       \<and> (queue_inv (clearQueue s) \<and> same_current s (clearQueue s))"
  using assms addToQueue_index [of s tr] clearQueue_index [of s]
    removeFromQueue_inv [of s i] removeFromQueue_same [of s i]
    reorderQueue_inv [of s f t] reorderQueue_same [of s f t]
  by blast

text \<open>
  The theorem at the three-track queue with index 1: removing entry 0 moves the index
  to 0, moving entry 1 to position 2 moves it to 2, and both still denote track b.
\<close>

theorem queue_mutations_keep_index_witness:
  "queue_inv (player_at 1)
   \<and> queue_inv (addToQueue track_c (player_at 1))
   \<and> same_current (player_at 1) (addToQueue track_c (player_at 1))
   \<and> queue_inv (removeFromQueue 0 (player_at 1))
   \<and> same_current (player_at 1) (removeFromQueue 0 (player_at 1))
   \<and> queueIndex (removeFromQueue 0 (player_at 1)) = 0
   \<and> queue_inv (reorderQueue 1 2 (player_at 1))
   \<and> same_current (player_at 1) (reorderQueue 1 2 (player_at 1))
   \<and> queueIndex (reorderQueue 1 2 (player_at 1)) = 2
   \<and> queue_inv (clearQueue (player_at 1))"
proof -
  have h: "queue_inv (player_at 1)"
    by (simp add: queue_inv_def player_at_def queue3_def)
  have len: "length (queue (player_at 1)) = 3" "queueIndex (player_at 1) = 1"
    by (simp_all add: player_at_def queue3_def)
  have r: "queueIndex (removeFromQueue 0 (player_at 1)) = 0"
    by (simp add: removeFromQueue_def Let_def len)
  have m: "queueIndex (reorderQueue 1 2 (player_at 1)) = 2"
    by (simp add: reorderQueue_def Let_def len split: prod.splits)
  show ?thesis
    using queue_mutations_keep_index [OF h, of track_c 0 1 2] h r m
    by (simp add: len)
qed

text \<open>
  C1 as stated fails: on the three-track queue with index 0, \<open>reorderQueue(0, 100)\<close>
  puts the first entry last and sets the index to 100, outside the queue.
\<close>

theorem reorderQueue_index_counterexample:
  "queue_inv (player_at 0)
   \<and> queue (reorderQueue 0 100 (player_at 0)) = [Some track_b, Some track_c, Some track_a]
   \<and> queueIndex (reorderQueue 0 100 (player_at 0)) = 100
   \<and> \<not> queue_inv (reorderQueue 0 100 (player_at 0))"
  by (simp add: queue_inv_def reorderQueue_def splice_remove_def splice_insert_def
      splice_start_def player_at_def queue3_def Let_def)

section \<open>Loading and starting a track\<close>

lemma playTrack_store:
  "fst (settled (playTrack p t None (s, e))) =
     s\<lparr>currentTrack := Some t,
       isPlaying := (is_resolved (playTrack p t None (s, e)) \<or> isPlaying s)\<rparr>"
  by (simp add: playTrack_def setTrack_def Let_def split: promise.splits option.splits)

lemma initialize_track:
  "engine_currentTrack (settled (initialize p e)) = engine_currentTrack e"
  by (simp add: initialize_def)

lemma ensureInitialized_track:
  "engine_currentTrack (settled (ensureInitialized p e)) = engine_currentTrack e"
  by (simp add: ensureInitialized_def initialize_track)

lemma loadSource_track:
  "engine_currentTrack (settled (loadSource u e)) = engine_currentTrack e"
  by (simp add: loadSource_def split: option.splits)

lemma loadStream_track:
  "engine_currentTrack (settled (loadStream p u e)) = engine_currentTrack e"
  using ensureInitialized_track [of p e] loadSource_track [of u]
  by (cases "ensureInitialized p e") (simp_all add: loadStream_def)

lemma loadFile_track:
  "engine_currentTrack (settled (loadFile p f e)) = engine_currentTrack e"
  using ensureInitialized_track [of p e] loadSource_track [of "createObjectURL p f"]
  by (cases "ensureInitialized p e") (simp_all add: loadFile_def)

lemma engine_play_track:
  "engine_currentTrack (settled (engine_play p e)) = engine_currentTrack e"
  using ensureInitialized_track [of p e]
  by (cases "ensureInitialized p e") (simp_all add: engine_play_def split: option.splits)

lemma setTrack_local:
  "source t = SrcLocal \<Longrightarrow> fileHandle t = Some h \<Longrightarrow>
   setTrack p t w =
     (case getFile p h of
        None \<Rightarrow> Rejected FileUnavailable ((fst w)\<lparr>currentTrack := Some t\<rparr>, setCurrentTrack t (snd w))
      | Some file \<Rightarrow>
          (case loadFile p file (setCurrentTrack t (snd w)) of
             Rejected err e' \<Rightarrow> Rejected err ((fst w)\<lparr>currentTrack := Some t\<rparr>, e')
           | Resolved e' \<Rightarrow> Resolved ((fst w)\<lparr>currentTrack := Some t\<rparr>, e')))"
  by (simp add: setTrack_def Let_def)

lemma setTrack_stream:
  "source t \<noteq> SrcLocal \<or> fileHandle t = None \<Longrightarrow> streamUrl t = Some u \<Longrightarrow> u \<noteq> [] \<Longrightarrow>
   setTrack p t w =
     (case loadStream p u (setCurrentTrack t (snd w)) of
        Rejected err e' \<Rightarrow> Rejected err ((fst w)\<lparr>currentTrack := Some t\<rparr>, e')
      | Resolved e' \<Rightarrow> Resolved ((fst w)\<lparr>currentTrack := Some t\<rparr>, e'))"
  by (auto simp add: setTrack_def Let_def)

lemma setTrack_nothing:
  "source t \<noteq> SrcLocal \<or> fileHandle t = None \<Longrightarrow> streamUrl t = None \<or> streamUrl t = Some [] \<Longrightarrow>
   setTrack p t w = Resolved ((fst w)\<lparr>currentTrack := Some t\<rparr>, setCurrentTrack t (snd w))"
  by (auto simp add: setTrack_def Let_def)

lemma setTrack_cases:
  obtains h where "source t = SrcLocal" "fileHandle t = Some h"
  | u where "source t \<noteq> SrcLocal \<or> fileHandle t = None" "streamUrl t = Some u" "u \<noteq> []"
  | "source t \<noteq> SrcLocal \<or> fileHandle t = None" "streamUrl t = None \<or> streamUrl t = Some []"
  by (cases "fileHandle t"; cases "streamUrl t") auto

lemma setTrack_track:
  "engine_currentTrack (snd (settled (setTrack p t w))) = Some t"
proof -
  let ?e = "setCurrentTrack t (snd w)"
  have e: "engine_currentTrack ?e = Some t"
    by (simp add: setCurrentTrack_def)
  show ?thesis
  proof (cases t rule: setTrack_cases)
    case (1 h)
    show ?thesis
    proof (cases "getFile p h")
      case None
      with 1 e show ?thesis by (simp add: setTrack_local)
    next
      case (Some f)
      with 1 e loadFile_track [of p f ?e] show ?thesis
        by (cases "loadFile p f ?e") (simp_all add: setTrack_local)
    qed
  next
    case (2 u)
    with e loadStream_track [of p u ?e] show ?thesis
      by (cases "loadStream p u ?e") (simp_all add: setTrack_stream)
  next
    case 3
    with e show ?thesis by (simp add: setTrack_nothing)
  qed
qed

lemma playTrack_engine_track:
  "engine_currentTrack (snd (settled (playTrack p t q w))) = Some t"
proof -
  let ?w = "(case q of None \<Rightarrow> fst w | Some q' \<Rightarrow>
     (let index = findIndex (\<lambda>t'. track_id t' = track_id t) q'
      in (fst w)\<lparr>queue := map Some q', queueIndex := (if index \<ge> 0 then index else 0)\<rparr>), snd w)"
  have "engine_currentTrack (snd (settled (setTrack p t ?w))) = Some t"
    by (rule setTrack_track)
  then show ?thesis
    using engine_play_track [of p "snd (settled (setTrack p t ?w))"]
    by (cases "setTrack p t ?w"; cases "engine_play p (snd (settled (setTrack p t ?w)))")
       (simp_all add: playTrack_def)
qed

lemma ensureInitialized_ok:
  assumes "can_initialize p e"
  shows "\<exists>e'. ensureInitialized p e = Resolved e' \<and> isInitialized e' \<and> audioElement e' \<noteq> None"
  using assms by (auto simp: can_initialize_def ensureInitialized_def initialize_def split: if_splits)

lemma loadSource_ok:
  assumes "isInitialized e" "audioElement e \<noteq> None"
  shows "\<exists>e'. loadSource u e = Resolved e' \<and> isInitialized e' \<and> audioElement e' \<noteq> None"
  using assms by (auto simp: loadSource_def)

lemma loadStream_ok:
  assumes "can_initialize p e"
  shows "\<exists>e'. loadStream p u e = Resolved e' \<and> isInitialized e' \<and> audioElement e' \<noteq> None"
  using ensureInitialized_ok [OF assms] loadSource_ok [of _ u]
  by (auto simp: loadStream_def)

lemma loadFile_ok:
  assumes "can_initialize p e"
  shows "\<exists>e'. loadFile p f e = Resolved e' \<and> isInitialized e' \<and> audioElement e' \<noteq> None"
  using ensureInitialized_ok [OF assms] loadSource_ok [of _ "createObjectURL p f"]
  by (auto simp: loadFile_def)

lemma setTrack_ok:
  assumes "can_initialize p e" "\<forall>h. getFile p h \<noteq> None"
  shows "\<exists>e'. setTrack p t (s, e) = Resolved (s\<lparr>currentTrack := Some t\<rparr>, e') \<and> can_initialize p e'"
proof -
  have c: "can_initialize p (setCurrentTrack t e)"
    using assms(1) by (simp add: can_initialize_def setCurrentTrack_def)
  show ?thesis
  proof (cases t rule: setTrack_cases)
    case (1 h)
    obtain f where f: "getFile p h = Some f"
      using assms(2) by blast
    from loadFile_ok [OF c, of f] obtain e' where
      "loadFile p f (setCurrentTrack t e) = Resolved e'" "isInitialized e'" "audioElement e' \<noteq> None"
      by blast
    with 1 f show ?thesis
      by (simp add: setTrack_local can_initialize_def)
  next
    case (2 u)
    from loadStream_ok [OF c, of u] obtain e' where
      "loadStream p u (setCurrentTrack t e) = Resolved e'"
      "isInitialized e'" "audioElement e' \<noteq> None"
      by blast
    with 2 show ?thesis
      by (simp add: setTrack_stream can_initialize_def)
  next
    case 3
    with c show ?thesis
      by (simp add: setTrack_nothing)
  qed
qed

lemma engine_play_ok:
  assumes "can_initialize p e" "\<forall>u. play_ok p u"
  shows "\<exists>e' a. engine_play p e = Resolved e' \<and> audioElement e' = Some a \<and> \<not> paused a"
  using ensureInitialized_ok [OF assms(1)] assms(2)
  by (auto simp: engine_play_def)

lemma playTrack_starts:
  assumes "can_initialize p e" "\<forall>u. play_ok p u" "\<forall>h. getFile p h \<noteq> None"
  shows "is_resolved (playTrack p t None (s, e))
     \<and> map_option paused (audioElement (snd (settled (playTrack p t None (s, e))))) = Some False"
proof -
  from setTrack_ok [OF assms(1,3), of t s] obtain e1 where
    e1: "setTrack p t (s, e) = Resolved (s\<lparr>currentTrack := Some t\<rparr>, e1)" "can_initialize p e1"
    by blast
  from engine_play_ok [OF e1(2) assms(2)] obtain e2 a where
    "engine_play p e1 = Resolved e2" "audioElement e2 = Some a" "\<not> paused a"
    by blast
  with e1 show ?thesis
    by (simp add: playTrack_def)
qed

lemma loadStream_src:
  assumes "can_initialize p e"
  shows "\<exists>e'. loadStream p u e = Resolved e' \<and> isInitialized e'
           \<and> map_option src (audioElement e') = Some u"
proof -
  from ensureInitialized_ok [OF assms] obtain e1 a where
    "ensureInitialized p e = Resolved e1" "isInitialized e1" "audioElement e1 = Some a"
    by blast
  then show ?thesis
    by (simp add: loadStream_def loadSource_def)
qed

lemma setTrack_stream_src:
  assumes "can_initialize p e" "loads_stream t u"
  shows "\<exists>e'. setTrack p t (s, e) = Resolved (s\<lparr>currentTrack := Some t\<rparr>, e')
           \<and> isInitialized e' \<and> map_option src (audioElement e') = Some u"
proof -
  have c: "can_initialize p (setCurrentTrack t e)"
    using assms(1) by (simp add: can_initialize_def setCurrentTrack_def)
  from loadStream_src [OF c, of u] obtain e' where
    "loadStream p u (setCurrentTrack t e) = Resolved e'" "isInitialized e'"
    "map_option src (audioElement e') = Some u"
    by blast
  with assms(2) show ?thesis
    by (simp add: setTrack_stream loads_stream_def)
qed

lemma engine_play_src:
  assumes "isInitialized e" "map_option src (audioElement e) = Some u"
  shows "map_option src (audioElement (settled (engine_play p e))) = Some u"
  using assms by (cases "audioElement e") (auto simp: engine_play_def ensureInitialized_def)

lemma playTrack_stream_src:
  assumes "can_initialize p e" "loads_stream t u"
  shows "map_option src (audioElement (snd (settled (playTrack p t None (s, e))))) = Some u"
proof -
  from setTrack_stream_src [OF assms, of s] obtain e1 where
    e1: "setTrack p t (s, e) = Resolved (s\<lparr>currentTrack := Some t\<rparr>, e1)"
      "isInitialized e1" "map_option src (audioElement e1) = Some u"
    by blast
  from engine_play_src [OF e1(2,3), of p] e1(1) show ?thesis
    by (cases "engine_play p e1") (simp_all add: playTrack_def)
qed

lemma playTrack_starts_playing:
  assumes "can_initialize p e" "\<forall>u. play_ok p u" "\<forall>h. getFile p h \<noteq> None"
  shows "starts_playing t (playTrack p t None (s, e))"
proof -
  have "map_option src (audioElement (snd (settled (playTrack p t None (s, e))))) = Some u"
    if "loads_stream t u" for u
    using assms(1) that by (rule playTrack_stream_src)
  then show ?thesis
    using playTrack_starts [OF assms, of t s] playTrack_store [of p t s e]
      playTrack_engine_track [of p t None "(s, e)"]
    by (simp add: starts_playing_def split: option.splits)
qed









lemma js_at_track:
  assumes "None \<notin> set xs" "0 \<le> i" "i < int (length xs)"
  shows "js_at xs i = Some (the (xs ! nat i))" "xs ! nat i = Some (the (xs ! nat i))"
proof -
  have "nat i < length xs" using assms by linarith
  then have "xs ! nat i \<in> set xs" by simp
  with assms(1) have "xs ! nat i \<noteq> None" by metis
  then show "xs ! nat i = Some (the (xs ! nat i))" by simp
  with assms show "js_at xs i = Some (the (xs ! nat i))" by (simp add: js_at_def)
qed

lemma playTrack_index:
  "queueIndex (fst (settled (playTrack p t None (s, e)))) = queueIndex s"
  "currentTrack (fst (settled (playTrack p t None (s, e)))) = Some t"
  by (simp_all add: playTrack_store)

lemma fixture_facts:
  "queue (player_at i) = queue3" "queueIndex (player_at i) = i" "\<not> shuffle (player_at i)"
  "repeat (player_at i) = RepeatOff" "progress (player_at i) = 0"
  "queue3 \<noteq> []" "None \<notin> set queue3" "length queue3 = 3"
  "queue3 ! 0 = Some track_a" "queue3 ! 1 = Some track_b" "queue3 ! 2 = Some track_c"
  "queue3 ! Suc 0 = Some track_b"
  by (simp_all add: player_at_def initial_state_def queue3_def)

lemma fixture_streams:
  "loads_stream track_a ''https://cdn.example/a''" "loads_stream track_b ''https://cdn.example/b''"
  "loads_stream track_c ''https://cdn.example/c''"
  "streamUrl track_a = Some ''https://cdn.example/a''" "streamUrl track_b = Some ''https://cdn.example/b''"
  "streamUrl track_c = Some ''https://cdn.example/c''"
  by (simp_all add: loads_stream_def track_a_def track_b_def track_c_def)

lemma ready_engine_initialize: "initialize browser_ok new_engine = Resolved ready_engine"
  by (simp add: initialize_def browser_ok_def new_engine_def ready_engine_def EQ_FREQUENCIES_def)




lemma fixture_platform:
  "can_initialize browser_ok ready_engine" "can_initialize browser_ok new_engine"
  "play_ok browser_ok u" "getFile browser_ok h \<noteq> None"
  by (simp_all add: can_initialize_def browser_ok_def ready_engine_def new_engine_def)

section \<open>\<open>next\<close>\<close>







section \<open>\<open>previous\<close>\<close>

lemma previous_restart:
  "progress s > 3 \<Longrightarrow> previous p (s, e) = Resolved (s, seekTo 0 e)"
  by (simp add: previous_def)

text \<open>\<open>seekTo(0)\<close> puts the element, when there is one, at time 0 and changes nothing else.\<close>

lemma seekTo_zero:
  "seekTo 0 e = e\<lparr>audioElement := map_option (\<lambda>a. a\<lparr>currentTime := 0\<rparr>) (audioElement e)\<rparr>"
  by (cases "audioElement e") (simp_all add: seekTo_def max_def min_def)

lemma previous_move:
  assumes "\<not> progress s > 3" "queue s \<noteq> []" "queue_inv s" "None \<notin> set (queue s)"
  defines "j \<equiv> (if queueIndex s > 0 then queueIndex s - 1 else int (length (queue s)) - 1)"
  shows "previous p (s, e) = playTrack p (the (queue s ! nat j)) None (s\<lparr>queueIndex := j\<rparr>, e)"
    and "0 \<le> j" and "j < int (length (queue s))"
proof -
  show "0 \<le> j" "j < int (length (queue s))"
    using assms(2,3) by (auto simp: j_def queue_inv_def)
  from js_at_track(1) [OF assms(4) this] assms(1,2) show
    "previous p (s, e) = playTrack p (the (queue s ! nat j)) None (s\<lparr>queueIndex := j\<rparr>, e)"
    by (simp add: previous_def Let_def j_def)
qed

text \<open>
  C3. With more than 3 seconds of progress \<open>previous\<close> seeks the engine to time 0
  and leaves the store, so the queue index, as it was. Otherwise, for a non-empty queue
  of tracks whose index satisfies the invariant, it moves the index to the entry
  before and plays it; from index 0 (and from -1) that is the last entry. The state is
  arbitrary, so the wrap does not depend on the repeat mode.
\<close>

theorem previous_threshold_and_wrap:
  "(progress s > 3 \<longrightarrow>
      previous p (s, e) = Resolved (s, seekTo 0 e)
      \<and> seekTo 0 e = e\<lparr>audioElement := map_option (\<lambda>a. a\<lparr>currentTime := 0\<rparr>) (audioElement e)\<rparr>)
   \<and> (\<not> progress s > 3 \<and> queue s \<noteq> [] \<and> queue_inv s \<and> None \<notin> set (queue s) \<longrightarrow>
        (queueIndex s > 0 \<longrightarrow>
           queueIndex (fst (settled (previous p (s, e)))) = queueIndex s - 1
           \<and> currentTrack (fst (settled (previous p (s, e)))) = queue s ! nat (queueIndex s - 1)
           \<and> (can_initialize p e \<and> (\<forall>u. play_ok p u) \<and> (\<forall>h. getFile p h \<noteq> None) \<longrightarrow>
                starts_playing (the (queue s ! nat (queueIndex s - 1))) (previous p (s, e))))
      \<and> (queueIndex s \<le> 0 \<longrightarrow>
           queueIndex (fst (settled (previous p (s, e)))) = int (length (queue s)) - 1
           \<and> currentTrack (fst (settled (previous p (s, e)))) = last (queue s)
           \<and> (can_initialize p e \<and> (\<forall>u. play_ok p u) \<and> (\<forall>h. getFile p h \<noteq> None) \<longrightarrow>
                starts_playing (the (last (queue s))) (previous p (s, e)))))"
proof (intro conjI impI)
  assume "progress s > 3"
  then show "previous p (s, e) = Resolved (s, seekTo 0 e)" by (rule previous_restart)
next
  show "seekTo 0 e = e\<lparr>audioElement := map_option (\<lambda>a. a\<lparr>currentTime := 0\<rparr>) (audioElement e)\<rparr>"
    by (rule seekTo_zero)
next
  assume h: "\<not> progress s > 3 \<and> queue s \<noteq> [] \<and> queue_inv s \<and> None \<notin> set (queue s)"
    and q: "queueIndex s > 0"
  from h have m: "\<not> progress s > 3" "queue s \<noteq> []" "queue_inv s" "None \<notin> set (queue s)" by simp_all
  note pm = previous_move [OF m]
  show "queueIndex (fst (settled (previous p (s, e)))) = queueIndex s - 1"
    using q by (simp add: pm(1) playTrack_index)
  show "currentTrack (fst (settled (previous p (s, e)))) = queue s ! nat (queueIndex s - 1)"
    using q js_at_track(2) [OF m(4) pm(2,3)] by (simp add: pm(1) playTrack_index)
  show "starts_playing (the (queue s ! nat (queueIndex s - 1))) (previous p (s, e))"
    if "can_initialize p e \<and> (\<forall>u. play_ok p u) \<and> (\<forall>h. getFile p h \<noteq> None)"
    using that q playTrack_starts_playing [of p e] by (simp add: pm(1))
next
  assume h: "\<not> progress s > 3 \<and> queue s \<noteq> [] \<and> queue_inv s \<and> None \<notin> set (queue s)"
    and q: "queueIndex s \<le> 0"
  from h have m: "\<not> progress s > 3" "queue s \<noteq> []" "queue_inv s" "None \<notin> set (queue s)" by simp_all
  note pm = previous_move [OF m]
  have "nat (int (length (queue s)) - 1) = length (queue s) - 1" by linarith
  then have l: "queue s ! nat (int (length (queue s)) - 1) = last (queue s)"
    using m(2) by (simp add: last_conv_nth)
  show "queueIndex (fst (settled (previous p (s, e)))) = int (length (queue s)) - 1"
    using q by (simp add: pm(1) playTrack_index)
  show "currentTrack (fst (settled (previous p (s, e)))) = last (queue s)"
    using q js_at_track(2) [OF m(4) pm(2,3)] l
    by (simp add: pm(1) playTrack_index)
  show "starts_playing (the (last (queue s))) (previous p (s, e))"
    if "can_initialize p e \<and> (\<forall>u. play_ok p u) \<and> (\<forall>h. getFile p h \<noteq> None)"
    using that q l playTrack_starts_playing [of p e] by (simp add: pm(1))
qed

text \<open>
  The three-track queue: at 10 seconds the engine is sought to 0; at exactly 3 seconds
  index 1 becomes 0; from index 0, with repeat mode "one", the index becomes 2.
\<close>

theorem previous_threshold_and_wrap_witness:
  "previous browser_ok ((player_at 1)\<lparr>progress := 10\<rparr>, ready_engine)
     = Resolved ((player_at 1)\<lparr>progress := 10\<rparr>, seekTo 0 ready_engine)
   \<and> map_option currentTime (audioElement (seekTo 0 ready_engine)) = Some 0
   \<and> queueIndex (fst (settled (previous browser_ok ((player_at 1)\<lparr>progress := 3\<rparr>, ready_engine)))) = 0
   \<and> starts_playing track_a (previous browser_ok ((player_at 1)\<lparr>progress := 3\<rparr>, ready_engine))
   \<and> queueIndex (fst (settled (previous browser_ok ((player_at 0)\<lparr>repeat := RepeatOne\<rparr>, ready_engine)))) = 2
   \<and> starts_playing track_c (previous browser_ok ((player_at 0)\<lparr>repeat := RepeatOne\<rparr>, ready_engine))"
proof -
  have inv: "queue_inv ((player_at 1)\<lparr>progress := 3\<rparr>)" "queue_inv ((player_at 0)\<lparr>repeat := RepeatOne\<rparr>)"
    by (simp_all add: queue_inv_def fixture_facts)
  have e: "audioElement ready_engine \<noteq> None" "last queue3 = Some track_c"
    by (simp_all add: ready_engine_def queue3_def)
  have a: "previous browser_ok ((player_at 1)\<lparr>progress := 10\<rparr>, ready_engine)
     = Resolved ((player_at 1)\<lparr>progress := 10\<rparr>, seekTo 0 ready_engine)
     \<and> map_option currentTime (audioElement (seekTo 0 ready_engine)) = Some 0"
    using previous_threshold_and_wrap [of "(player_at 1)\<lparr>progress := 10\<rparr>" browser_ok ready_engine] e
    by (auto simp add: fixture_facts)
  have b: "queueIndex (fst (settled (previous browser_ok ((player_at 1)\<lparr>progress := 3\<rparr>, ready_engine)))) = 0
   \<and> starts_playing track_a (previous browser_ok ((player_at 1)\<lparr>progress := 3\<rparr>, ready_engine))"
    using previous_threshold_and_wrap [of "(player_at 1)\<lparr>progress := 3\<rparr>" browser_ok ready_engine] inv
    by (simp add: fixture_facts fixture_platform)
  have c: "queueIndex (fst (settled (previous browser_ok ((player_at 0)\<lparr>repeat := RepeatOne\<rparr>, ready_engine)))) = 2
   \<and> starts_playing track_c (previous browser_ok ((player_at 0)\<lparr>repeat := RepeatOne\<rparr>, ready_engine))"
    using previous_threshold_and_wrap [of "(player_at 0)\<lparr>repeat := RepeatOne\<rparr>" browser_ok ready_engine] inv e
    by (simp add: fixture_facts fixture_platform)
  from a b c show ?thesis by simp
qed




section \<open>The equalizer graph\<close>

lemma engine_setEQBand_frame:
  "audioElement (engine_setEQBand i g e) = audioElement e"
  "gainNode (engine_setEQBand i g e) = gainNode e"
  "engine_currentTrack (engine_setEQBand i g e) = engine_currentTrack e"
  "isInitialized (engine_setEQBand i g e) = isInitialized e"
  "length (eqNodes (engine_setEQBand i g e)) = length (eqNodes e)"
  by (simp_all add: engine_setEQBand_def)

lemma engine_setEQBand_nth:
  "k < length (eqNodes e) \<Longrightarrow>
   eqNodes (engine_setEQBand (int j) g e) ! k =
     (if k = j then clampedGain g else eqNodes e ! k)"
  by (auto simp add: engine_setEQBand_def)

lemma engine_setEQBand_in_range:
  "0 \<le> i \<Longrightarrow> i < int (length (eqNodes e)) \<Longrightarrow>
   eqNodes (engine_setEQBand i g e) = (eqNodes e)[nat i := clampedGain g]"
  by (simp add: engine_setEQBand_def)

lemma engine_setEQBand_out_of_range:
  "\<not> (0 \<le> i \<and> i < int (length (eqNodes e))) \<Longrightarrow> engine_setEQBand i g e = e"
  by (auto simp add: engine_setEQBand_def)

text \<open>
  \<open>setEQBands\<close> visits the positions from left to right, so one more position at
  the end is one more call of \<open>setEQBand\<close> after the others, or none for a hole.
\<close>

lemma engine_setEQBands_snoc:
  "engine_setEQBands (gs @ [b]) e =
     (case b of None \<Rightarrow> engine_setEQBands gs e
      | Some g \<Rightarrow> engine_setEQBand (int (length gs)) g (engine_setEQBands gs e))"
  by (cases b) (simp_all add: engine_setEQBands_def enumerate_append_eq)

lemma engine_setEQBands_frame:
  "audioElement (engine_setEQBands gs e) = audioElement e"
  "gainNode (engine_setEQBands gs e) = gainNode e"
  "engine_currentTrack (engine_setEQBands gs e) = engine_currentTrack e"
  "isInitialized (engine_setEQBands gs e) = isInitialized e"
  "length (eqNodes (engine_setEQBands gs e)) = length (eqNodes e)"
proof (induction gs rule: rev_induct)
  case Nil
  case 1 show ?case by (simp add: engine_setEQBands_def)
  case 2 show ?case by (simp add: engine_setEQBands_def)
  case 3 show ?case by (simp add: engine_setEQBands_def)
  case 4 show ?case by (simp add: engine_setEQBands_def)
  case 5 show ?case by (simp add: engine_setEQBands_def)
next
  case (snoc b gs)
  case 1 show ?case using snoc(1) by (cases b) (simp_all add: engine_setEQBands_snoc engine_setEQBand_frame)
  case 2 show ?case using snoc(2) by (cases b) (simp_all add: engine_setEQBands_snoc engine_setEQBand_frame)
  case 3 show ?case using snoc(3) by (cases b) (simp_all add: engine_setEQBands_snoc engine_setEQBand_frame)
  case 4 show ?case using snoc(4) by (cases b) (simp_all add: engine_setEQBands_snoc engine_setEQBand_frame)
  case 5 show ?case using snoc(5) by (cases b) (simp_all add: engine_setEQBands_snoc engine_setEQBand_frame)
qed

lemma engine_setEQBands_nth:
  "k < length (eqNodes e) \<Longrightarrow>
   eqNodes (engine_setEQBands gs e) ! k =
     (if k < length gs then (case gs ! k of None \<Rightarrow> eqNodes e ! k
                             | Some g \<Rightarrow> clampedGain g)
      else eqNodes e ! k)"
proof (induction gs rule: rev_induct)
  case Nil
  show ?case by (simp add: engine_setEQBands_def)
next
  case (snoc b gs)
  have len: "k < length (eqNodes (engine_setEQBands gs e))"
    using snoc.prems by (simp add: engine_setEQBands_frame)
  show ?case
  proof (cases b)
    case None
    with snoc show ?thesis
      by (auto simp add: engine_setEQBands_snoc nth_append)
  next
    case (Some g)
    with snoc engine_setEQBand_nth [OF len, of "length gs" g] show ?thesis
      by (auto simp add: engine_setEQBands_snoc nth_append)
  qed
qed

text \<open>
  A vector of numbers as long as the graph reaches the graph clamped band by band; as
  it is when every gain lies within -12..12.
\<close>

lemma engine_setEQBands_numbers:
  assumes "length gs = length (eqNodes e)"
  shows "eqNodes (engine_setEQBands (numbers gs) e) = map (\<lambda>g. Gain (max (- 12) (min 12 g))) gs"
proof (rule nth_equalityI)
  show "length (eqNodes (engine_setEQBands (numbers gs) e))
      = length (map (\<lambda>g. Gain (max (- 12) (min 12 g))) gs)"
    using assms by (simp add: engine_setEQBands_frame)
next
  fix k assume "k < length (eqNodes (engine_setEQBands (numbers gs) e))"
  then have k: "k < length (eqNodes e)" "k < length gs"
    using assms by (simp_all add: engine_setEQBands_frame)
  show "eqNodes (engine_setEQBands (numbers gs) e) ! k
      = map (\<lambda>g. Gain (max (- 12) (min 12 g))) gs ! k"
    using engine_setEQBands_nth [OF k(1), of "numbers gs"] k(2) by simp
qed

lemma clamp_in_range: "- 12 \<le> g \<Longrightarrow> g \<le> 12 \<Longrightarrow> max (- 12) (min 12 g) = (g::real)"
  by (simp add: max_def min_def)

lemma engine_setEQBands_exact:
  assumes "length gs = length (eqNodes e)" "\<forall>g \<in> set gs. - 12 \<le> g \<and> g \<le> 12"
  shows "eqNodes (engine_setEQBands (numbers gs) e) = map Gain gs"
  unfolding engine_setEQBands_numbers [OF assms(1)]
  using assms(2) by (simp add: clamp_in_range)

lemma spread_simps:
  "length (spread xs) = length xs"
  "None \<notin> set xs \<Longrightarrow> spread xs = xs"
  "spread (numbers gs) = numbers gs"
proof -
  show "length (spread xs) = length xs" by (simp add: spread_def)
  show "spread xs = xs" if "None \<notin> set xs"
    using that by (intro nth_equalityI) (auto simp: spread_def in_set_conv_nth split: option.splits)
  show "spread (numbers gs) = numbers gs"
    by (simp add: spread_def)
qed




lemma array_set_in_range:
  "0 \<le> i \<Longrightarrow> i < int (length xs) \<Longrightarrow> array_set i v xs = xs[nat i := Some v]"
  by (simp add: array_set_def nat_less_iff)

text \<open>
  A stored vector shorter than the graph. \<open>setEQBand(5, 3)\<close> after
  \<open>setEQBands([1, 2])\<close> leaves holes at 2..4, which the copy of the next
  \<open>setEQBand\<close> turns into \<open>undefined\<close>. Re-enabling the equalizer skips the
  holes, so those bands stay 0, but visits the \<open>undefined\<close> entries, which puts
  \<open>NaN\<close> on those bands.
\<close>

lemma short_vector_example:
  "eqBands (fst (setEQBand 5 3 (setEQBands [1, 2] (initial_state, ready_engine))))
     = [Some (Num 1), Some (Num 2), None, None, None, Some (Num 3)]
   \<and> eqBands (fst (setEQBand 0 1 (setEQBand 5 3 (setEQBands [1, 2] (initial_state, ready_engine)))))
     = [Some (Num 1), Some (Num 2), Some Undefined, Some Undefined, Some Undefined, Some (Num 3)]
   \<and> eqNodes (snd (toggleEQ (toggleEQ
         (setEQBand 5 3 (setEQBands [1, 2] (initial_state, ready_engine))))))
     = [Gain 1, Gain 2, Gain 0, Gain 0, Gain 0, Gain 3, Gain 0, Gain 0, Gain 0, Gain 0]
   \<and> eqNodes (snd (toggleEQ (toggleEQ
         (setEQBand 0 1 (setEQBand 5 3 (setEQBands [1, 2] (initial_state, ready_engine)))))))
     = [Gain 1, Gain 2, NaN, NaN, NaN, Gain 3, Gain 0, Gain 0, Gain 0, Gain 0]"
  by (simp add: setEQBand_def setEQBands_def toggleEQ_def setEQEnabled_def engine_setEQBands_def
      engine_setEQBand_def array_set_def spread_def initial_state_def ready_engine_def Let_def eval_nat_numeral)

text \<open>
  C5 (as amended). Every \<open>setEQBand\<close> call sets the tracked preset name to
  "Custom", also right after \<open>applyEQPreset\<close>. For a band index the graph has, the
  applied gain is the given gain clamped into -12..12 and the other bands keep theirs;
  for any other index the engine is left as it is. \<open>setEQBand(3, 20)\<close> applies 12
  and \<open>setEQBand(3, -20)\<close> applies -12 to band 3 of a ten-band graph. The gain
  stored in the store's vector at an index the vector has is the gain as given, not
  clamped; the rest of the vector is a copy of what was stored.
\<close>

theorem setEQBand_graph_clamped:
  "eqPresetName (fst (setEQBand i g w)) = ''Custom''
   \<and> eqPresetName (fst (setEQBand i g (applyEQPreset n w))) = ''Custom''
   \<and> (0 \<le> i \<and> i < int (length (eqNodes (snd w))) \<longrightarrow>
        eqNodes (snd (setEQBand i g w)) = (eqNodes (snd w))[nat i := Gain (max (- 12) (min 12 g))]
        \<and> (\<exists>x. eqNodes (snd (setEQBand i g w)) ! nat i = Gain x \<and> - 12 \<le> x \<and> x \<le> 12))
   \<and> (\<not> (0 \<le> i \<and> i < int (length (eqNodes (snd w)))) \<longrightarrow> snd (setEQBand i g w) = snd w)
   \<and> (0 \<le> i \<and> i < int (length (eqBands (fst w))) \<longrightarrow>
        eqBands (fst (setEQBand i g w)) = (spread (eqBands (fst w)))[nat i := Some (Num g)]
        \<and> eqBands (fst (setEQBand i g w)) ! nat i = Some (Num g)
        \<and> (None \<notin> set (eqBands (fst w)) \<longrightarrow>
             eqBands (fst (setEQBand i g w)) = (eqBands (fst w))[nat i := Some (Num g)]))
   \<and> (length (eqNodes (snd w)) = 10 \<longrightarrow>
        eqNodes (snd (setEQBand 3 20 w)) ! 3 = Gain 12
        \<and> eqNodes (snd (setEQBand 3 (- 20) w)) ! 3 = Gain (- 12))"
proof (intro conjI impI)
  show "eqPresetName (fst (setEQBand i g w)) = ''Custom''"
    by (simp add: setEQBand_def)
  show "eqPresetName (fst (setEQBand i g (applyEQPreset n w))) = ''Custom''"
    by (simp add: setEQBand_def)
next
  assume r: "0 \<le> i \<and> i < int (length (eqNodes (snd w)))"
  then have n: "nat i < length (eqNodes (snd w))" by linarith
  from r show eq: "eqNodes (snd (setEQBand i g w))
      = (eqNodes (snd w))[nat i := Gain (max (- 12) (min 12 g))]"
    by (simp add: setEQBand_def engine_setEQBand_in_range)
  from n show "\<exists>x. eqNodes (snd (setEQBand i g w)) ! nat i = Gain x \<and> - 12 \<le> x \<and> x \<le> 12"
    unfolding eq by simp
next
  assume "\<not> (0 \<le> i \<and> i < int (length (eqNodes (snd w))))"
  then show "snd (setEQBand i g w) = snd w"
    by (simp add: setEQBand_def engine_setEQBand_out_of_range)
next
  assume r: "0 \<le> i \<and> i < int (length (eqBands (fst w)))"
  then have n: "nat i < length (eqBands (fst w))" by linarith
  from r show eq: "eqBands (fst (setEQBand i g w)) = (spread (eqBands (fst w)))[nat i := Some (Num g)]"
    by (simp add: setEQBand_def array_set_in_range spread_simps)
  from n show "eqBands (fst (setEQBand i g w)) ! nat i = Some (Num g)"
    unfolding eq by (simp add: spread_simps)
  show "eqBands (fst (setEQBand i g w)) = (eqBands (fst w))[nat i := Some (Num g)]"
    if "None \<notin> set (eqBands (fst w))"
    unfolding eq using that by (simp add: spread_simps)
next
  assume "length (eqNodes (snd w)) = 10"
  then show "eqNodes (snd (setEQBand 3 20 w)) ! 3 = Gain 12"
    "eqNodes (snd (setEQBand 3 (- 20) w)) ! 3 = Gain (- 12)"
    by (simp_all add: setEQBand_def engine_setEQBand_in_range)
qed

text \<open>
  After the preset "Rock": \<open>setEQBand(3, 20)\<close> applies 12 to band 3, stores 20 and
  renames the preset to "Custom"; indices 10 and -1 leave the engine alone.
\<close>

theorem setEQBand_graph_clamped_witness:
  "eqNodes (snd (setEQBand 3 20 (rock_state, rock_engine))) = map Gain [4, 3, 1, 12, -1, 0, 1, 3, 4, 4]
   \<and> eqBands (fst (setEQBand 3 20 (rock_state, rock_engine)))
       = numbers [4, 3, 1, 20, -1, 0, 1, 3, 4, 4]
   \<and> eqPresetName rock_state = ''Rock''
   \<and> eqPresetName (fst (setEQBand 3 20 (rock_state, rock_engine))) = ''Custom''
   \<and> eqNodes (snd (setEQBand 3 (- 20) (rock_state, rock_engine))) ! 3 = Gain (- 12)
   \<and> snd (setEQBand 10 5 (rock_state, rock_engine)) = rock_engine
   \<and> snd (setEQBand (- 1) 5 (rock_state, rock_engine)) = rock_engine"
proof -
  have b: "eqBands rock_state = numbers [4, 3, 1, 0, -1, 0, 1, 3, 4, 4]"
    "eqNodes rock_engine = map Gain [4, 3, 1, 0, -1, 0, 1, 3, 4, 4]"
    "eqPresetName rock_state = ''Rock''"
    by (simp_all add: rock_state_def rock_engine_def ready_engine_def)
  have r: "(0::int) \<le> 3 \<and> (3::int) < int (length (eqNodes (snd (rock_state, rock_engine))))"
    "(0::int) \<le> 3 \<and> (3::int) < int (length (eqBands (fst (rock_state, rock_engine))))"
    "None \<notin> set (eqBands (fst (rock_state, rock_engine)))"
    "length (eqNodes (snd (rock_state, rock_engine))) = 10"
    "\<not> (0 \<le> (10::int) \<and> (10::int) < int (length (eqNodes (snd (rock_state, rock_engine)))))"
    "\<not> (0 \<le> (- 1::int) \<and> (- 1::int) < int (length (eqNodes (snd (rock_state, rock_engine)))))"
    by (simp_all add: b)
  from setEQBand_graph_clamped [of 3 20 "(rock_state, rock_engine)"]
    setEQBand_graph_clamped [of 3 "- 20" "(rock_state, rock_engine)"]
    setEQBand_graph_clamped [of 10 5 "(rock_state, rock_engine)"]
    setEQBand_graph_clamped [of "- 1" 5 "(rock_state, rock_engine)"] r
  have "eqNodes (snd (setEQBand 3 20 (rock_state, rock_engine)))
        = (eqNodes (snd (rock_state, rock_engine)))[nat 3 := Gain (max (- 12) (min 12 20))]
      \<and> eqBands (fst (setEQBand 3 20 (rock_state, rock_engine)))
        = (eqBands (fst (rock_state, rock_engine)))[nat 3 := Some (Num 20)]
      \<and> eqPresetName (fst (setEQBand 3 20 (rock_state, rock_engine))) = ''Custom''
      \<and> eqNodes (snd (setEQBand 3 (- 20) (rock_state, rock_engine))) ! 3 = Gain (- 12)
      \<and> snd (setEQBand 10 5 (rock_state, rock_engine)) = snd (rock_state, rock_engine)
      \<and> snd (setEQBand (- 1) 5 (rock_state, rock_engine)) = snd (rock_state, rock_engine)"
    by blast
  then show ?thesis
    by (simp add: b)
qed

text \<open>
  C5 as stated fails for the stored gain: after \<open>setEQBand(3, 20)\<close> from the
  initial store the vector holds 20 at band 3 while the graph holds 12, and after
  \<open>setEQBand(3, -20)\<close> it holds -20.
\<close>

theorem setEQBand_stored_gain_counterexample:
  "eqBands (fst (setEQBand 3 20 (initial_state, ready_engine))) ! 3 = Some (Num 20)
   \<and> eqBands (fst (setEQBand 3 20 (initial_state, ready_engine))) ! 3 \<noteq> Some (Num 12)
   \<and> eqNodes (snd (setEQBand 3 20 (initial_state, ready_engine))) ! 3 = Gain 12
   \<and> eqBands (fst (setEQBand 3 (- 20) (initial_state, ready_engine))) ! 3 = Some (Num (- 20))"
  by (simp add: setEQBand_def array_set_def engine_setEQBand_def initial_state_def
      ready_engine_def spread_def)

section \<open>Index arguments outside the array\<close>








section \<open>Equalizer bypass\<close>




section \<open>Volume and mute\<close>

lemma engine_setVolume_gain:
  "gainNode (engine_setVolume v e) = map_option (\<lambda>g. max 0 (min 1 v)) (gainNode e)"
  by (cases "gainNode e") (simp_all add: engine_setVolume_def)

lemma engine_setVolume_twice:
  "engine_setVolume v (engine_setVolume u e) = engine_setVolume v e"
  by (cases "gainNode e") (simp_all add: engine_setVolume_def)

lemma mute_steps:
  "toggleMute (setVolume v w) = ((fst w)\<lparr>volume := v, muted := True\<rparr>, engine_setVolume 0 (snd w))"
  "toggleMute (toggleMute (setVolume v w)) = setVolume v w"
  by (simp_all add: toggleMute_def setVolume_def Let_def engine_setVolume_twice)

text \<open>
  C8. After \<open>setVolume(v)\<close>, \<open>toggleMute\<close> keeps \<open>v\<close> in the store, raises
  \<open>muted\<close> and sets the gain stage to 0; a second \<open>toggleMute\<close> gives back
  exactly the store and the engine that \<open>setVolume(v)\<close> left: the gain stage holds
  \<open>v\<close> clamped into 0..1, which is \<open>v\<close> itself for a volume (0 to 1). An engine
  without gain stage stays without.
\<close>

theorem mute_round_trip:
  "toggleMute (toggleMute (setVolume v w)) = setVolume v w
   \<and> volume (fst (setVolume v w)) = v
   \<and> muted (fst (toggleMute (setVolume v w)))
   \<and> volume (fst (toggleMute (setVolume v w))) = v
   \<and> gainNode (snd (toggleMute (setVolume v w))) = map_option (\<lambda>g. 0) (gainNode (snd w))
   \<and> \<not> muted (fst (toggleMute (toggleMute (setVolume v w))))
   \<and> volume (fst (toggleMute (toggleMute (setVolume v w)))) = v
   \<and> gainNode (snd (toggleMute (toggleMute (setVolume v w))))
       = map_option (\<lambda>g. max 0 (min 1 v)) (gainNode (snd w))
   \<and> (0 \<le> v \<and> v \<le> 1 \<longrightarrow>
        gainNode (snd (toggleMute (toggleMute (setVolume v w))))
          = map_option (\<lambda>g. v) (gainNode (snd w)))"
proof -
  have g: "max 0 (min 1 v) = v" if "0 \<le> v \<and> v \<le> 1"
    using that by (simp add: max_def min_def)
  have once: "muted (fst (toggleMute (setVolume v w)))"
    "volume (fst (toggleMute (setVolume v w))) = v"
    "gainNode (snd (toggleMute (setVolume v w))) = map_option (\<lambda>g. 0) (gainNode (snd w))"
    by (simp_all add: mute_steps(1) engine_setVolume_gain)
  have twice: "\<not> muted (fst (toggleMute (toggleMute (setVolume v w))))"
    "volume (fst (toggleMute (toggleMute (setVolume v w)))) = v"
    "gainNode (snd (toggleMute (toggleMute (setVolume v w))))
       = map_option (\<lambda>g. max 0 (min 1 v)) (gainNode (snd w))"
    unfolding mute_steps(2) by (simp_all add: setVolume_def engine_setVolume_gain)
  have "volume (fst (setVolume v w)) = v"
    by (simp add: setVolume_def)
  with once twice g mute_steps(2) [of v w] show ?thesis
    by simp
qed

text \<open>Volume 0.7 on the initialised engine: 0.7, then 0 while muted, then 0.7 again.\<close>

theorem mute_round_trip_witness:
  "gainNode (snd (toggleMute (setVolume 0.7 (initial_state, ready_engine)))) = Some 0
   \<and> muted (fst (toggleMute (setVolume 0.7 (initial_state, ready_engine))))
   \<and> volume (fst (toggleMute (setVolume 0.7 (initial_state, ready_engine)))) = 0.7
   \<and> gainNode (snd (toggleMute (toggleMute (setVolume 0.7 (initial_state, ready_engine))))) = Some 0.7
   \<and> \<not> muted (fst (toggleMute (toggleMute (setVolume 0.7 (initial_state, ready_engine)))))"
proof -
  let ?w = "(initial_state, ready_engine)"
  have e: "gainNode (snd ?w) = Some 1"
    by (simp add: ready_engine_def)
  have r: "(0::real) \<le> 0.7 \<and> (0.7::real) \<le> 1"
    by simp
  from mute_round_trip [of "0.7" ?w] r
  have "gainNode (snd (toggleMute (setVolume 0.7 ?w))) = map_option (\<lambda>g. 0) (gainNode (snd ?w))
      \<and> muted (fst (toggleMute (setVolume 0.7 ?w)))
      \<and> volume (fst (toggleMute (setVolume 0.7 ?w))) = 0.7
      \<and> gainNode (snd (toggleMute (toggleMute (setVolume 0.7 ?w))))
          = map_option (\<lambda>g. 0.7) (gainNode (snd ?w))
      \<and> \<not> muted (fst (toggleMute (toggleMute (setVolume 0.7 ?w))))"
    by blast
  then show ?thesis
    unfolding e by simp
qed

text \<open>
  C9. \<open>setVolume(v)\<close> stores \<open>v\<close>, lowers \<open>muted\<close> and hands \<open>v\<close> to the
  engine, for every \<open>v\<close>: after \<open>toggleMute\<close>, and on a muted store also for the
  volume it already has and for 0.
\<close>

theorem setVolume_unmutes:
  "fst (setVolume v (s, e)) = s\<lparr>volume := v, muted := False\<rparr>
   \<and> \<not> muted (fst (setVolume v (s, e)))
   \<and> volume (fst (setVolume v (s, e))) = v
   \<and> snd (setVolume v (s, e)) = engine_setVolume v e
   \<and> gainNode (snd (setVolume v (s, e))) = map_option (\<lambda>g. max 0 (min 1 v)) (gainNode e)
   \<and> \<not> muted (fst (setVolume v (toggleMute (s, e))))
   \<and> \<not> muted (fst (setVolume (volume s) (s\<lparr>muted := True\<rparr>, e)))
   \<and> \<not> muted (fst (setVolume 0 (s\<lparr>muted := True\<rparr>, e)))"
  by (simp add: setVolume_def engine_setVolume_gain)

section \<open>Presets\<close>

lemma find_distinct_name:
  "distinct (map preset_name ps) \<Longrightarrow> p \<in> set ps \<Longrightarrow>
   find (\<lambda>q. preset_name q = preset_name p) ps = Some p"
  by (induction ps) auto

lemma find_unknown_name:
  "n \<notin> preset_name ` set ps \<Longrightarrow> find (\<lambda>q. preset_name q = n) ps = None"
  by (auto simp: find_None_iff)

lemma EQ_PRESETS_names: "distinct (map preset_name EQ_PRESETS)"
  by (simp add: EQ_PRESETS_def)

lemma EQ_PRESETS_bands:
  "p \<in> set EQ_PRESETS \<Longrightarrow>
   length (bands p) = 10 \<and> (\<forall>g \<in> set (bands p). - 12 \<le> g \<and> g \<le> 12)"
  by (auto simp add: EQ_PRESETS_def)

lemma applyPreset_nodes:
  assumes "p \<in> set EQ_PRESETS" "length (eqNodes e) = 10"
  shows "eqNodes (applyPreset p e) = map Gain (bands p)"
proof -
  from EQ_PRESETS_bands [OF assms(1)]
  have b: "length (bands p) = length (eqNodes e)" "\<forall>g \<in> set (bands p). - 12 \<le> g \<and> g \<le> 12"
    using assms(2) by simp_all
  then show ?thesis
    unfolding applyPreset_def by (rule engine_setEQBands_exact)
qed

text \<open>
  C10. \<open>applyEQPreset\<close> with a name that no entry of \<open>EQ_PRESETS\<close> has returns
  the store and the engine unchanged. With the name of a preset of the list, the
  store gets a copy of that preset's gains and the name, nothing else in it changes,
  the engine gets \<open>applyPreset\<close> of that preset, and a ten-band graph then holds
  exactly the preset's gains.
\<close>

theorem applyEQPreset_known_names_only:
  "(n \<notin> preset_name ` set EQ_PRESETS \<longrightarrow> applyEQPreset n w = w)
   \<and> (p \<in> set EQ_PRESETS \<longrightarrow>
        fst (applyEQPreset (preset_name p) w)
          = (fst w)\<lparr>eqBands := numbers (bands p), eqPresetName := preset_name p\<rparr>
        \<and> snd (applyEQPreset (preset_name p) w) = applyPreset p (snd w)
        \<and> (length (eqNodes (snd w)) = 10 \<longrightarrow>
             eqNodes (snd (applyEQPreset (preset_name p) w)) = map Gain (bands p)))"
proof (intro conjI impI)
  assume "n \<notin> preset_name ` set EQ_PRESETS"
  then show "applyEQPreset n w = w"
    by (simp add: applyEQPreset_def find_unknown_name)
next
  assume p: "p \<in> set EQ_PRESETS"
  have f: "find (\<lambda>q. preset_name q = preset_name p) EQ_PRESETS = Some p"
    using EQ_PRESETS_names p by (rule find_distinct_name)
  show "fst (applyEQPreset (preset_name p) w)
          = (fst w)\<lparr>eqBands := numbers (bands p), eqPresetName := preset_name p\<rparr>"
    and s: "snd (applyEQPreset (preset_name p) w) = applyPreset p (snd w)"
    by (simp_all add: applyEQPreset_def f)
  show "eqNodes (snd (applyEQPreset (preset_name p) w)) = map Gain (bands p)"
    if "length (eqNodes (snd w)) = 10"
    unfolding s using p that by (rule applyPreset_nodes)
qed

text \<open>The unknown name "Loud" and the preset "Rock" on the initial store.\<close>

theorem applyEQPreset_known_names_only_witness:
  "applyEQPreset ''Loud'' (initial_state, ready_engine) = (initial_state, ready_engine)
   \<and> eqBands (fst (applyEQPreset ''Rock'' (initial_state, ready_engine)))
       = numbers [4, 3, 1, 0, -1, 0, 1, 3, 4, 4]
   \<and> eqPresetName (fst (applyEQPreset ''Rock'' (initial_state, ready_engine))) = ''Rock''
   \<and> eqNodes (snd (applyEQPreset ''Rock'' (initial_state, ready_engine)))
       = map Gain [4, 3, 1, 0, -1, 0, 1, 3, 4, 4]"
proof -
  let ?rock = "\<lparr>preset_name = ''Rock'', bands = [4, 3, 1, 0, -1, 0, 1, 3, 4, 4]\<rparr>"
  have a: "''Loud'' \<notin> preset_name ` set EQ_PRESETS" "?rock \<in> set EQ_PRESETS"
    "length (eqNodes (snd (initial_state, ready_engine))) = 10"
    by (simp_all add: EQ_PRESETS_def ready_engine_def)
  from applyEQPreset_known_names_only [of "''Loud''" "(initial_state, ready_engine)" ?rock] a
  have "applyEQPreset ''Loud'' (initial_state, ready_engine) = (initial_state, ready_engine)
      \<and> fst (applyEQPreset (preset_name ?rock) (initial_state, ready_engine))
          = initial_state\<lparr>eqBands := numbers (bands ?rock), eqPresetName := preset_name ?rock\<rparr>
      \<and> eqNodes (snd (applyEQPreset (preset_name ?rock) (initial_state, ready_engine)))
          = map Gain (bands ?rock)"
    unfolding fst_conv by blast
  then show ?thesis
    by simp
qed

end
